theory Spec2Isabelle
  imports Complex_Main "HOL-Library.Word"
begin

unbundle bit_operations_syntax

section \<open>Bytes, numbers and typed arrays\<close>

text \<open>
  The SDK (\<^verbatim>\<open>src/src/sdk.js\<close>) computes with JavaScript numbers and stores the
  results in \<^verbatim>\<open>Uint8Array\<close>s. An element of a \<^verbatim>\<open>Uint8Array\<close> is a \<open>byte\<close>; an
  array is a list of bytes. Integer-valued numbers are modelled as \<open>int\<close>: the bit
  operators of JavaScript work on the two's complement of the number, as \<open>AND\<close> and
  \<open>drop_bit\<close> do on \<open>int\<close>, and every expression below reads bits 0 to 15 only, which
  the conversion to 32 bits does not change. Storing a number into a typed array keeps
  its low eight bits (\<open>u8\<close>).
\<close>

type_synonym byte = "8 word"

definition u8 :: "int \<Rightarrow> byte" where
  "u8 v = word_of_int v"

definition WIDTH :: int where
  "WIDTH = 576"

definition BPL :: nat where
  "BPL = 72"

text \<open>\<^verbatim>\<open>dst.set(src, off)\<close> for a source that fits into the destination.\<close>

definition u8_set :: "byte list \<Rightarrow> byte list \<Rightarrow> nat \<Rightarrow> byte list" where
  "u8_set dst src off = take off dst @ src @ drop (off + length src) dst"

text \<open>\<^verbatim>\<open>buf.slice(a, b)\<close> with \<open>a \<le> b \<le> length buf\<close>.\<close>

definition u8_slice :: "byte list \<Rightarrow> nat \<Rightarrow> nat \<Rightarrow> byte list" where
  "u8_slice buf a b = take (b - a) (drop a buf)"

section \<open>Frame codec\<close>

subsection \<open>Byte order helpers\<close>

definition writeU16LE :: "int \<Rightarrow> byte list" where
  "writeU16LE v = [u8 (v AND 0xFF), u8 (drop_bit 8 v AND 0xFF)]"

definition writeU16BE :: "int \<Rightarrow> byte list" where
  "writeU16BE v = [u8 (drop_bit 8 v AND 0xFF), u8 (v AND 0xFF)]"

subsection \<open>Checksum\<close>

text \<open>
  \<^verbatim>\<open>PGP.crc8\<close>: the accumulator \<^verbatim>\<open>crc\<close> is a number that the eight shifts of the inner
  loop let grow beyond eight bits; it is cut back with \<^verbatim>\<open>crc &= 0xFF\<close> only after the
  inner loop. It stays below \<open>2 ^ 16\<close>, so a 32-bit word holds it exactly.
\<close>

definition crc8_step :: "32 word \<Rightarrow> 32 word" where
  "crc8_step crc = (if crc AND 0x80 \<noteq> 0 then push_bit 1 crc XOR 0x07 else push_bit 1 crc)"

definition crc8_byte :: "32 word \<Rightarrow> byte \<Rightarrow> 32 word" where
  "crc8_byte crc b = ((crc8_step ^^ 8) (crc XOR ucast b)) AND 0xFF"

definition crc8 :: "byte list \<Rightarrow> 32 word" where
  "crc8 data = foldl crc8_byte 0 data"

text \<open>
  The reference the specification names: the 8-bit CRC with polynomial \<open>0x07\<close>, initial
  value 0, most significant bit first, no final XOR, on an 8-bit register.
\<close>

definition crc8_ref_step :: "byte \<Rightarrow> byte" where
  "crc8_ref_step c = (if bit c 7 then push_bit 1 c XOR 0x07 else push_bit 1 c)"

definition crc8_ref :: "byte list \<Rightarrow> byte" where
  "crc8_ref data = foldl (\<lambda>c b. (crc8_ref_step ^^ 8) (c XOR b)) 0 data"

subsection \<open>Frames\<close>

definition SYNC :: byte where
  "SYNC = 0xE0"

text \<open>
  \<^verbatim>\<open>PGP.frame(cmd, payload)\<close>. The buffer is allocated with \<open>5 + len\<close> zero bytes and
  filled in place; the checksum is taken over \<^verbatim>\<open>buf.slice(1, 4 + len)\<close>. There is no
  check of \<open>len\<close> in the source, and none here.
\<close>

definition frame :: "byte \<Rightarrow> byte list \<Rightarrow> byte list" where
  "frame cmd payload =
    (let len = length payload;
         buf0 = replicate (5 + len) (0 :: byte);
         buf1 = buf0[0 := SYNC];
         buf2 = buf1[1 := cmd];
         buf3 = buf2[2 := u8 (int len AND 0xFF)];
         buf4 = buf3[3 := u8 (drop_bit 8 (int len) AND 0xFF)];
         buf5 = (if len > 0 then u8_set buf4 payload 4 else buf4)
     in buf5[4 + len := ucast (crc8 (u8_slice buf5 1 (4 + len)))])"

text \<open>The fields of a frame, read back from its bytes.\<close>

definition frame_cmd :: "byte list \<Rightarrow> byte" where
  "frame_cmd f = f ! 1"

definition frame_len_field :: "byte list \<Rightarrow> nat" where
  "frame_len_field f = unat (f ! 2) + 256 * unat (f ! 3)"

definition frame_payload :: "byte list \<Rightarrow> byte list" where
  "frame_payload f = take (length f - 5) (drop 4 f)"

definition frame_checksum :: "byte list \<Rightarrow> byte" where
  "frame_checksum f = last f"

text \<open>The region the checksum covers: command byte, two length bytes, payload.\<close>

definition frame_checked_region :: "byte list \<Rightarrow> byte list" where
  "frame_checked_region f = butlast (tl f)"

subsection \<open>The checksum of the code is the reference CRC\<close>

lemma and_0x80_bit7: "(x AND 0x80 \<noteq> 0) = bit (x :: 32 word) 7"
  using bit_iff_and_push_bit_not_eq_0 [of x 7] by simp

lemma ucast_push_down: "(ucast (push_bit n (x :: 32 word)) :: byte) = push_bit n (ucast x)"
  by (rule bit_word_eqI) (auto simp add: bit_simps)

lemma ucast_xor_down: "(ucast ((x :: 32 word) XOR y) :: byte) = ucast x XOR ucast y"
  by (rule bit_word_eqI) (auto simp add: bit_simps)

lemma ucast_7: "(ucast (7 :: 32 word) :: byte) = 7"
  by simp

lemma bit7_ucast: "bit (ucast (x :: 32 word) :: byte) 7 = bit x 7"
  by (simp add: bit_simps)

lemma step_ucast: "(ucast (crc8_step x) :: byte) = crc8_ref_step (ucast x)"
  unfolding crc8_step_def crc8_ref_step_def
  by (simp only: and_0x80_bit7 bit7_ucast ucast_push_down ucast_xor_down ucast_7
        if_distrib [of ucast])

lemma steps_ucast: "(ucast ((crc8_step ^^ n) x) :: byte) = (crc8_ref_step ^^ n) (ucast x)"
  by (induction n) (simp_all add: step_ucast)

lemma ucast_and_ff: "(ucast ((x :: 32 word) AND 0xFF) :: byte) = ucast x"
proof -
  have "(0xFF :: 32 word) = mask 8" by (simp add: mask_eq_exp_minus_1)
  then have "x AND 0xFF = take_bit 8 x" by (simp add: take_bit_eq_mask)
  then show ?thesis by (simp add: bit_word_eqI bit_simps)
qed

lemma ucast_ucast_byte: "(ucast (ucast (b :: byte) :: 32 word) :: byte) = b"
  by (rule bit_word_eqI) (auto simp add: bit_simps)

lemma crc8_byte_ucast:
  "(ucast (crc8_byte crc b) :: byte) = (crc8_ref_step ^^ 8) (ucast crc XOR b)"
  unfolding crc8_byte_def
  by (simp only: ucast_and_ff steps_ucast ucast_xor_down ucast_ucast_byte)

lemma foldl_crc8_ucast:
  "(ucast (foldl crc8_byte c data) :: byte) =
     foldl (\<lambda>c b. (crc8_ref_step ^^ 8) (c XOR b)) (ucast c) data"
  by (induction data arbitrary: c) (simp_all add: crc8_byte_ucast del: funpow.simps)

lemma crc8_refines: "(ucast (crc8 data) :: byte) = crc8_ref data"
  unfolding crc8_def crc8_ref_def using foldl_crc8_ucast [of 0 data] by simp

subsection \<open>The layout of a frame\<close>

lemma frame_layout:
  "frame cmd p =
     [SYNC, cmd, u8 (int (length p) AND 0xFF), u8 (drop_bit 8 (int (length p)) AND 0xFF)]
     @ p
     @ [crc8_ref ([cmd, u8 (int (length p) AND 0xFF), u8 (drop_bit 8 (int (length p)) AND 0xFF)] @ p)]"
proof -
  define lo where "lo = u8 (int (length p) AND 0xFF)"
  define hi where "hi = u8 (drop_bit 8 (int (length p)) AND 0xFF)"
  define hdr where "hdr = [SYNC, cmd, lo, hi]"
  have len_hdr: "length hdr = 4" by (simp add: hdr_def)
  have rep: "replicate (5 + length p) (0 :: byte) = [0, 0, 0, 0] @ replicate (length p) 0 @ [0]"
    by (simp add: numeral_eq_Suc replicate_append_same)
  have buf4: "(replicate (5 + length p) (0 :: byte))[0 := SYNC, 1 := cmd, 2 := lo, 3 := hi]
                = hdr @ replicate (length p) 0 @ [0]"
    unfolding rep hdr_def by (simp add: numeral_eq_Suc)
  have set_p: "u8_set (hdr @ replicate (length p) 0 @ [0]) p 4 = hdr @ p @ [0]"
    unfolding u8_set_def using len_hdr by simp
  have buf5: "(if length p > 0 then u8_set (hdr @ replicate (length p) 0 @ [0]) p 4
               else hdr @ replicate (length p) 0 @ [0]) = hdr @ p @ [0]"
    using set_p by (cases p) simp_all
  have slice: "u8_slice (hdr @ p @ [0]) 1 (4 + length p) = [cmd, lo, hi] @ p"
  proof -
    have "3 + length p = Suc (Suc (Suc (length p)))" by simp
    then have "take (3 + length p) (cmd # lo # hi # p @ [0]) = cmd # lo # hi # p"
      by (simp only: take_Suc_Cons) simp
    then show ?thesis unfolding u8_slice_def hdr_def by simp
  qed
  have upd: "(hdr @ p @ [0])[4 + length p := c] = hdr @ p @ [c]" for c :: byte
    using len_hdr by (simp add: list_update_append)
  have "frame cmd p = hdr @ p @ [crc8_ref ([cmd, lo, hi] @ p)]"
    unfolding frame_def Let_def lo_def [symmetric] hi_def [symmetric]
    by (simp only: buf4 buf5 slice upd crc8_refines)
  then show ?thesis by (simp add: hdr_def lo_def hi_def)
qed

subsection \<open>Length bytes\<close>

lemma and_ff_int: "(x :: int) AND 0xFF = x mod 256"
proof -
  have "take_bit 8 x = x AND mask 8" by (rule take_bit_eq_mask)
  moreover have "(mask 8 :: int) = 255" by (simp add: mask_eq_exp_minus_1)
  moreover have "take_bit 8 x = x mod 256" by (simp add: take_bit_eq_mod)
  ultimately show ?thesis by simp
qed

lemma int_mod_256: "int n mod 256 = int (n mod 256)"
  by (simp add: zmod_int)

lemma int_div_256: "int n div 256 = int (n div 256)"
  by (simp add: zdiv_int)

lemma drop8_int: "drop_bit 8 (x :: int) = x div 256"
  by (simp add: drop_bit_eq_div)

lemma unat_u8: "unat (u8 x) = nat (x mod 256)"
  by (simp add: u8_def unsigned_of_int take_bit_eq_mod)

lemma lo_byte_nat: "unat (u8 (int n AND 0xFF)) = n mod 256"
  by (simp add: unat_u8 and_ff_int int_mod_256)

lemma hi_byte_nat: "unat (u8 (drop_bit 8 (int n) AND 0xFF)) = n div 256 mod 256"
  by (simp add: unat_u8 and_ff_int drop8_int int_mod_256 int_div_256)

lemma frame_length: "length (frame c p) = 5 + length p"
  by (simp add: frame_layout)

lemma frame_len_field_eq: "frame_len_field (frame c p) = length p mod 65536"
proof -
  have "frame_len_field (frame c p) = length p mod 256 + 256 * (length p div 256 mod 256)"
    unfolding frame_len_field_def by (simp add: frame_layout lo_byte_nat hi_byte_nat)
  also have "\<dots> = length p mod 65536"
    using mod_mult2_eq [of "length p" 256 256] by simp
  finally show ?thesis .
qed

lemma frame_payload_eq: "frame_payload (frame c p) = p"
  unfolding frame_payload_def by (simp add: frame_layout)

lemma frame_checked_region_eq:
  "frame_checked_region (frame c p) =
     [c, u8 (int (length p) AND 0xFF), u8 (drop_bit 8 (int (length p)) AND 0xFF)] @ p"
  unfolding frame_checked_region_def by (simp add: frame_layout butlast_append)

lemma frame_checksum_eq:
  "frame_checksum (frame c p) = crc8_ref (frame_checked_region (frame c p))"
  unfolding frame_checksum_def frame_checked_region_eq by (simp add: frame_layout)

lemma frame_cmd_eq: "frame_cmd (frame c p) = c"
  by (simp add: frame_cmd_def frame_layout)

text \<open>
  Claim C3. For every command byte \<open>c\<close> and every payload \<open>p\<close> of at most 65535 bytes,
  \<open>frame c p\<close> is the sync byte \<open>0xE0\<close>, the command byte, the length low byte, the
  length high byte, the payload and one checksum byte; the two length bytes read back
  as the length of \<open>p\<close>; and the checksum byte is the reference CRC-8 (polynomial
  \<open>0x07\<close>, initial value 0, most significant bit first, no final XOR), and the value
  \<^verbatim>\<open>PGP.crc8\<close> computes, over the command byte, the length bytes and the payload as
  they stand in the produced frame.
\<close>

theorem frame_checksum_roundtrip:
  assumes "length p \<le> 65535"
  shows "frame c p =
           [SYNC, c, of_nat (length p mod 256), of_nat (length p div 256)] @ p
           @ [frame_checksum (frame c p)]
         \<and> frame_len_field (frame c p) = length p
         \<and> frame_checked_region (frame c p) = [c, of_nat (length p mod 256), of_nat (length p div 256)] @ p
         \<and> frame_checksum (frame c p) = crc8_ref (frame_checked_region (frame c p))
         \<and> frame_checksum (frame c p) = ucast (crc8 (frame_checked_region (frame c p)))"
proof -
  have lo: "u8 (int (length p) AND 0xFF) = of_nat (length p mod 256)"
    by (simp add: u8_def and_ff_int int_mod_256)
  have hi: "u8 (drop_bit 8 (int (length p)) AND 0xFF) = of_nat (length p div 256)"
  proof -
    have "length p div 256 < 256" using assms by simp
    then have "length p div 256 mod 256 = length p div 256" by simp
    then show ?thesis by (simp add: u8_def and_ff_int drop8_int int_mod_256 int_div_256)
  qed
  have "frame c p = [SYNC, c, of_nat (length p mod 256), of_nat (length p div 256)] @ p
           @ [frame_checksum (frame c p)]"
    unfolding frame_checksum_def by (simp add: frame_layout lo hi)
  moreover have "frame_len_field (frame c p) = length p"
    using assms by (simp add: frame_len_field_eq)
  moreover have "frame_checked_region (frame c p) = [c, of_nat (length p mod 256), of_nat (length p div 256)] @ p"
    by (simp add: frame_checked_region_eq lo hi)
  moreover have "frame_checksum (frame c p) = crc8_ref (frame_checked_region (frame c p))"
    by (rule frame_checksum_eq)
  moreover have "frame_checksum (frame c p) = ucast (crc8 (frame_checked_region (frame c p)))"
    by (simp only: frame_checksum_eq crc8_refines)
  ultimately show ?thesis by blast
qed






text \<open>
  The \<^verbatim>\<open>SET_SPEED\<close> frame for 10000 lines per second: payload \<open>0x10 0x27\<close>.
\<close>

theorem frame_checksum_roundtrip_witness:
  "length [0x10, 0x27 :: byte] \<le> 65535
   \<and> frame 0x22 [0x10, 0x27] = [0xE0, 0x22, 0x02, 0x00, 0x10, 0x27, 0x2E]
   \<and> frame_len_field (frame 0x22 [0x10, 0x27]) = 2
   \<and> frame_checksum (frame 0x22 [0x10, 0x27]) = crc8_ref [0x22, 0x02, 0x00, 0x10, 0x27]"
proof -
  have h: "length [0x10, 0x27 :: byte] \<le> 65535" by simp
  have ck: "crc8_ref [0x22, 0x02, 0x00, 0x10, 0x27] = 0x2E"
    by code_simp
  note t = frame_checksum_roundtrip [OF h, of "0x22"]
  have r: "frame_checked_region (frame 0x22 [0x10, 0x27]) = [0x22, 0x02, 0x00, 0x10, 0x27]"
    using t by simp
  have c: "frame_checksum (frame 0x22 [0x10, 0x27]) = 0x2E"
    using t unfolding r ck by simp
  have f: "frame 0x22 [0x10, 0x27] = [0xE0, 0x22, 0x02, 0x00, 0x10, 0x27, 0x2E]"
    using t unfolding c by (simp add: SYNC_def)
  have l: "frame_len_field (frame 0x22 [0x10, 0x27]) = 2"
    using t by simp
  show ?thesis using h f l c ck by simp
qed

text \<open>
  Claim C9, as stated, fails: \<^verbatim>\<open>PGP.frame\<close> has no length check. For a payload of
  65536 bytes it returns a frame of 65541 bytes that carries the whole payload and
  whose length field reads 0.
\<close>

theorem frame_oversized_counterexample:
  "length (frame 0x01 (replicate 65536 0)) = 65541
   \<and> take 4 (frame 0x01 (replicate 65536 0)) = [0xE0, 0x01, 0x00, 0x00]
   \<and> frame_len_field (frame 0x01 (replicate 65536 0)) = 0
   \<and> frame_payload (frame 0x01 (replicate 65536 0)) = replicate 65536 0"
proof -
  have "take 4 (frame 0x01 (replicate 65536 0)) = [0xE0, 0x01, 0x00, 0x00]"
    by (simp add: frame_layout SYNC_def u8_def)
  then show ?thesis
    by (simp add: frame_length frame_len_field_eq frame_payload_eq)
qed

text \<open>
  Claim C9, amended. \<^verbatim>\<open>PGP.frame\<close> returns a frame for every payload, whatever its
  length: the frame has \<open>5 + length p\<close> bytes, carries the payload unchanged, and its
  two length bytes hold the low 16 bits of the payload length (\<open>length p mod 65536\<close>).
\<close>

theorem frame_length_field_wraps:
  "length (frame c p) = 5 + length p
   \<and> take 4 (frame c p) = [SYNC, c, of_nat (length p mod 256), of_nat (length p div 256 mod 256)]
   \<and> frame_payload (frame c p) = p
   \<and> frame_len_field (frame c p) = length p mod 65536"
proof -
  have "take 4 (frame c p) = [SYNC, c, of_nat (length p mod 256), of_nat (length p div 256 mod 256)]"
    by (simp add: frame_layout u8_def and_ff_int drop8_int int_mod_256 int_div_256)
  then show ?thesis
    by (simp add: frame_length frame_len_field_eq frame_payload_eq)
qed

section \<open>Line compressor\<close>

definition RAW_LINE :: byte where
  "RAW_LINE = 0x01"

definition RAW_LINE_RLE :: byte where
  "RAW_LINE_RLE = 0x03"

text \<open>
  \<^verbatim>\<open>PGP.rleEncode\<close>. The inner \<^verbatim>\<open>while\<close> loop extends the run that starts at \<open>i\<close>
  (\<open>count_run\<close>); the outer loop pushes \<open>count, val\<close> and moves on by \<open>count\<close>
  (\<open>rle_loop\<close>). The input is the array after \<^verbatim>\<open>new Uint8Array(data)\<close>.
\<close>

function count_run :: "byte list \<Rightarrow> nat \<Rightarrow> byte \<Rightarrow> nat \<Rightarrow> nat" where
  "count_run arr i val count =
     (if i + count < length arr \<and> arr ! (i + count) = val \<and> count < 255
      then count_run arr i val (count + 1) else count)"
  by pat_completeness auto
termination
  by (relation "measure (\<lambda>(arr, i, val, count). length arr - (i + count))") auto

declare count_run.simps [simp del]

lemma count_run_ge: "count \<le> count_run arr i val count"
proof (induction arr i val count rule: count_run.induct)
  case (1 arr i val count)
  then show ?case by (subst count_run.simps) auto
qed

function rle_loop :: "byte list \<Rightarrow> nat \<Rightarrow> byte list \<Rightarrow> byte list" where
  "rle_loop arr i rle =
     (if i < length arr
      then (let val = arr ! i; count = count_run arr i val 1
            in rle_loop arr (i + count) (rle @ [u8 (int count), val]))
      else rle)"
  by pat_completeness auto
termination
proof (relation "measure (\<lambda>(arr, i, rle). length arr - i)")
  show "wf (measure (\<lambda>(arr, i, rle). length arr - i))" by simp
next
  fix arr :: "byte list" and i :: nat and rle :: "byte list" and x xa
  assume "i < length arr" "x = arr ! i" "xa = count_run arr i x 1"
  then show "((arr, i + xa, rle @ [u8 (int xa), x]), (arr, i, rle)) \<in> measure (\<lambda>(arr, i, rle). length arr - i)"
    using count_run_ge [of 1 arr i x] by simp
qed

declare rle_loop.simps [simp del]

definition rleEncode :: "byte list \<Rightarrow> byte list option" where
  "rleEncode data = (if length data \<noteq> 72 then None else Some (rle_loop data 0 []))"

definition rawLine :: "byte list \<Rightarrow> byte list" where
  "rawLine data = frame RAW_LINE data"

definition rawLineRle :: "byte list \<Rightarrow> byte list" where
  "rawLineRle data =
     (case rleEncode data of
        Some rle \<Rightarrow> if length rle < 64 then frame RAW_LINE_RLE rle else rawLine data
      | None \<Rightarrow> rawLine data)"

text \<open>
  Expanding a run-length form: each \<open>(count, value)\<close> pair stands for \<open>count\<close> copies of
  \<open>value\<close>. \<open>rle_counts\<close> lists the counts.
\<close>

fun rle_expand :: "byte list \<Rightarrow> byte list" where
  "rle_expand (c # v # rest) = replicate (unat c) v @ rle_expand rest"
| "rle_expand _ = []"

fun rle_counts :: "byte list \<Rightarrow> nat list" where
  "rle_counts (c # v # rest) = unat c # rle_counts rest"
| "rle_counts _ = []"


lemma count_run_props:
  "1 \<le> count \<Longrightarrow> count \<le> 255 \<Longrightarrow> i + count \<le> length arr \<Longrightarrow>
   (\<forall>j<count. arr ! (i + j) = val) \<Longrightarrow>
   count_run arr i val count \<le> 255 \<and> i + count_run arr i val count \<le> length arr
   \<and> (\<forall>j<count_run arr i val count. arr ! (i + j) = val)"
proof (induction arr i val count rule: count_run.induct)
  case (1 arr i val count)
  show ?case
  proof (cases "i + count < length arr \<and> arr ! (i + count) = val \<and> count < 255")
    case True
    have "\<forall>j<count + 1. arr ! (i + j) = val"
      using True "1.prems"(4) by (auto simp: less_Suc_eq)
    with True "1.IH" have "count_run arr i val (count + 1) \<le> 255
        \<and> i + count_run arr i val (count + 1) \<le> length arr
        \<and> (\<forall>j<count_run arr i val (count + 1). arr ! (i + j) = val)"
      by simp
    moreover have "count_run arr i val count = count_run arr i val (count + 1)"
      using True by (subst count_run.simps) simp
    ultimately show ?thesis by simp
  next
    case False
    then have "count_run arr i val count = count"
      by (subst count_run.simps) auto
    with "1.prems" show ?thesis by simp
  qed
qed

lemma rle_expand_append:
  "even (length xs) \<Longrightarrow> rle_expand (xs @ ys) = rle_expand xs @ rle_expand ys"
  by (induction xs rule: rle_expand.induct) auto

lemma rle_counts_append:
  "even (length xs) \<Longrightarrow> rle_counts (xs @ ys) = rle_counts xs @ rle_counts ys"
  by (induction xs rule: rle_counts.induct) auto

lemma unat_u8_small: "n \<le> 255 \<Longrightarrow> unat (u8 (int n)) = n"
  by (simp add: unat_u8 int_mod_256)

lemma replicate_eq_take_drop:
  "i + c \<le> length arr \<Longrightarrow> (\<forall>j<c. arr ! (i + j) = v) \<Longrightarrow> take c (drop i arr) = replicate c v"
  by (rule nth_equalityI) auto

lemma rle_loop_props:
  "i \<le> length arr \<Longrightarrow> even (length rle) \<Longrightarrow>
   even (length (rle_loop arr i rle))
   \<and> rle_expand (rle_loop arr i rle) = rle_expand rle @ drop i arr
   \<and> (\<exists>cs. rle_counts (rle_loop arr i rle) = rle_counts rle @ cs
        \<and> (\<forall>c\<in>set cs. 1 \<le> c \<and> c \<le> 255) \<and> sum_list cs = length arr - i)"
proof (induction arr i rle rule: rle_loop.induct)
  case (1 arr i rle)
  show ?case
  proof (cases "i < length arr")
    case False
    then have "rle_loop arr i rle = rle" by (subst rle_loop.simps) simp
    with False "1.prems" show ?thesis by simp
  next
    case True
    define val where "val = arr ! i"
    define count where "count = count_run arr i val 1"
    have cp: "count \<le> 255 \<and> i + count \<le> length arr \<and> (\<forall>j<count. arr ! (i + j) = val)"
      unfolding count_def using True count_run_props [of 1 i arr val] by (simp add: val_def)
    have c1: "1 \<le> count" unfolding count_def by (rule count_run_ge)
    have step: "rle_loop arr i rle = rle_loop arr (i + count) (rle @ [u8 (int count), val])"
      using True by (subst rle_loop.simps) (simp add: Let_def val_def count_def)
    have ev: "even (length (rle @ [u8 (int count), val]))" using "1.prems" by simp
    note ih = "1.IH" [OF True val_def count_def _ ev]
    have ih': "even (length (rle_loop arr (i + count) (rle @ [u8 (int count), val])))
      \<and> rle_expand (rle_loop arr (i + count) (rle @ [u8 (int count), val]))
          = rle_expand (rle @ [u8 (int count), val]) @ drop (i + count) arr
      \<and> (\<exists>cs. rle_counts (rle_loop arr (i + count) (rle @ [u8 (int count), val]))
                 = rle_counts (rle @ [u8 (int count), val]) @ cs
            \<and> (\<forall>c\<in>set cs. 1 \<le> c \<and> c \<le> 255) \<and> sum_list cs = length arr - (i + count))"
      using ih cp by simp
    have ex1: "rle_expand (rle @ [u8 (int count), val]) = rle_expand rle @ replicate count val"
      using "1.prems" cp by (simp add: rle_expand_append unat_u8_small)
    have cn1: "rle_counts (rle @ [u8 (int count), val]) = rle_counts rle @ [count]"
      using "1.prems" cp by (simp add: rle_counts_append unat_u8_small)
    have split: "drop i arr = replicate count val @ drop (i + count) arr"
    proof -
      have "drop i arr = take count (drop i arr) @ drop count (drop i arr)"
        by (simp only: append_take_drop_id)
      moreover have "take count (drop i arr) = replicate count val"
        using cp by (simp add: replicate_eq_take_drop)
      moreover have "drop count (drop i arr) = drop (i + count) arr"
        by (simp add: add.commute)
      ultimately show ?thesis by simp
    qed
    from ih' obtain cs where cs: "rle_counts (rle_loop arr (i + count) (rle @ [u8 (int count), val]))
                 = rle_counts (rle @ [u8 (int count), val]) @ cs"
          "\<forall>c\<in>set cs. 1 \<le> c \<and> c \<le> 255" "sum_list cs = length arr - (i + count)"
      by blast
    have "rle_counts (rle_loop arr i rle) = rle_counts rle @ (count # cs)"
      unfolding step cs(1) cn1 by simp
    moreover have "\<forall>c\<in>set (count # cs). 1 \<le> c \<and> c \<le> 255" using cs(2) cp c1 by simp
    moreover have "sum_list (count # cs) = length arr - i" using cs(3) cp by simp
    moreover have "rle_expand (rle_loop arr i rle) = rle_expand rle @ drop i arr"
      unfolding step using ih' ex1 split by simp
    moreover have "even (length (rle_loop arr i rle))" unfolding step using ih' by simp
    ultimately show ?thesis by blast
  qed
qed


text \<open>
  Claim C4. For every 72-byte line \<open>L\<close>, \<^verbatim>\<open>rleEncode\<close> returns a sequence of
  \<open>(count, value)\<close> pairs whose expansion is \<open>L\<close>; every count is between 1 and 255, and
  the counts add up to 72.
\<close>

theorem rle_roundtrip:
  assumes "length L = 72"
  shows "\<exists>r. rleEncode L = Some r \<and> rle_expand r = L
           \<and> even (length r)
           \<and> (\<forall>c\<in>set (rle_counts r). 1 \<le> c \<and> c \<le> 255)
           \<and> sum_list (rle_counts r) = 72"
proof -
  have "rleEncode L = Some (rle_loop L 0 [])" using assms by (simp add: rleEncode_def)
  moreover note rle_loop_props [of 0 L "[]"]
  ultimately show ?thesis using assms by auto
qed

theorem rle_roundtrip_witness:
  "length (replicate 72 (0xFF :: byte)) = 72
   \<and> rleEncode (replicate 72 0xFF) = Some [72, 0xFF]
   \<and> rle_expand [72, 0xFF] = replicate 72 0xFF
   \<and> rle_counts [72, 0xFF] = [72]"
proof -
  have h: "length (replicate 72 (0xFF :: byte)) = 72" by simp
  have e: "rleEncode (replicate 72 0xFF) = Some [72, 0xFF]" by code_simp
  from rle_roundtrip [OF h] e show ?thesis by auto
qed

lemma rawLineRle_cases:
  "rawLineRle L =
     (if length L = 72 \<and> length (rle_loop L 0 []) < 64
      then frame RAW_LINE_RLE (rle_loop L 0 []) else frame RAW_LINE L)"
  by (simp add: rawLineRle_def rleEncode_def rawLine_def)

text \<open>
  Claim C5. For a 72-byte line \<open>L\<close>, \<^verbatim>\<open>rawLineRle\<close> emits a \<^verbatim>\<open>RAW_LINE_RLE\<close> frame
  carrying the run-length form exactly when that form is shorter than 64 bytes, and
  otherwise a \<^verbatim>\<open>RAW_LINE\<close> frame carrying the 72 bytes of \<open>L\<close>; for an input that is
  not 72 bytes long \<^verbatim>\<open>rleEncode\<close> returns none.
\<close>

theorem rawLineRle_threshold:
  "(length L = 72 \<longrightarrow>
      (\<exists>r. rleEncode L = Some r
         \<and> rawLineRle L = (if length r < 64 then frame RAW_LINE_RLE r else frame RAW_LINE L)
         \<and> (frame_cmd (rawLineRle L) = RAW_LINE_RLE \<longleftrightarrow> length r < 64)
         \<and> (length r < 64 \<longrightarrow> frame_payload (rawLineRle L) = r)
         \<and> (\<not> length r < 64 \<longrightarrow>
               frame_cmd (rawLineRle L) = RAW_LINE \<and> frame_payload (rawLineRle L) = L
               \<and> length (frame_payload (rawLineRle L)) = 72)))
   \<and> (length L \<noteq> 72 \<longrightarrow> rleEncode L = None)"
  by (simp add: rawLineRle_def rleEncode_def rawLine_def frame_cmd_eq frame_payload_eq
        RAW_LINE_def RAW_LINE_RLE_def)

text \<open>A line of one byte value compresses; an alternating line does not.\<close>

definition alternating :: "byte list" where
  "alternating = concat (replicate 36 [0xAA, 0x55])"

theorem rawLineRle_threshold_witness:
  "length (replicate 72 (0 :: byte)) = 72
   \<and> rleEncode (replicate 72 0) = Some [72, 0]
   \<and> rawLineRle (replicate 72 0) = frame RAW_LINE_RLE [72, 0]
   \<and> length alternating = 72
   \<and> rawLineRle alternating = frame RAW_LINE alternating
   \<and> length [0 :: byte] \<noteq> 72 \<and> rleEncode [0] = None"
proof -
  have e: "rleEncode (replicate 72 0) = Some [72, 0]" by code_simp
  have a: "length alternating = 72" by code_simp
  have la: "length (the (rleEncode alternating)) = 144" by code_simp
  have ea: "rleEncode alternating = Some (the (rleEncode alternating))"
    using a by (simp add: rleEncode_def)
  show ?thesis
    using rawLineRle_threshold [of "replicate 72 0"] rawLineRle_threshold [of alternating]
      rawLineRle_threshold [of "[0]"] e a la ea
    by auto
qed

section \<open>Commands\<close>

text \<open>
  The command ids of \<^verbatim>\<open>PGP.CMD\<close> (\<^verbatim>\<open>RAW_LINE\<close> and \<^verbatim>\<open>RAW_LINE_RLE\<close> are above) and
  the frame builders of \<^verbatim>\<open>PGP\<close>, one definition for each static method. A payload
  written as \<^verbatim>\<open>new Uint8Array([a, b])\<close> or filled index by index is the list of its
  bytes, each cut to eight bits by \<open>u8\<close>.
\<close>

definition RAW_LINES :: byte where "RAW_LINES = 0x02"
definition FILL_LINE :: byte where "FILL_LINE = 0x04"
definition TEXT :: byte where "TEXT = 0x05"
definition RECT :: byte where "RECT = 0x06"
definition SPRITE_DEF :: byte where "SPRITE_DEF = 0x0B"
definition SPRITE_DRAW :: byte where "SPRITE_DRAW = 0x0C"
definition FEED :: byte where "FEED = 0x20"
definition SET_SPEED :: byte where "SET_SPEED = 0x22"
definition STOP :: byte where "STOP = 0x23"
definition SET_HEAT :: byte where "SET_HEAT = 0x24"
definition SET_MODE :: byte where "SET_MODE = 0x25"
definition POLL_INPUT :: byte where "POLL_INPUT = 0x30"
definition WAIT_BUTTON :: byte where "WAIT_BUTTON = 0x31"
definition PROGRAM_START :: byte where "PROGRAM_START = 0x50"
definition PROGRAM_END :: byte where "PROGRAM_END = 0x51"
definition LABEL :: byte where "LABEL = 0x60"
definition JUMP :: byte where "JUMP = 0x61"
definition JUMP_IF_BTN :: byte where "JUMP_IF_BTN = 0x62"
definition RANDOM_JUMP :: byte where "RANDOM_JUMP = 0x64"
definition SET_VAR :: byte where "SET_VAR = 0x65"
definition JUMP_IF_VAR :: byte where "JUMP_IF_VAR = 0x66"
definition JUMP_IF_FADER :: byte where "JUMP_IF_FADER = 0x67"
definition WAIT_FADER :: byte where "WAIT_FADER = 0x68"
definition SET_FEED_MODE :: byte where "SET_FEED_MODE = 0x69"

definition BTN_ANY :: int where "BTN_ANY = 0x3F"

definition setSpeed :: "int \<Rightarrow> byte list" where
  "setSpeed pps = frame SET_SPEED [u8 (pps AND 0xFF), u8 (drop_bit 8 pps AND 0xFF)]"

definition setHeat :: "int \<Rightarrow> byte list" where
  "setHeat us = frame SET_HEAT [u8 (us AND 0xFF), u8 (drop_bit 8 us AND 0xFF)]"

definition fillLine :: "int \<Rightarrow> int \<Rightarrow> byte list" where
  "fillLine pattern count =
     frame FILL_LINE [u8 (pattern AND 0xFF), u8 (count AND 0xFF), u8 (drop_bit 8 count AND 0xFF)]"

text \<open>
  A JavaScript string is a sequence of UTF-16 code units. \<^verbatim>\<open>new TextEncoder().encode\<close>
  is a platform function, not code of this repository: it decodes the code units to
  code points (a lone surrogate becomes \<open>U+FFFD\<close>) and writes each in UTF-8.
\<close>

type_synonym jsstring = "nat list"

fun utf16_decode :: "nat list \<Rightarrow> nat list" where
  "utf16_decode [] = []"
| "utf16_decode [u] = [if 0xD800 \<le> u \<and> u \<le> 0xDFFF then 0xFFFD else u]"
| "utf16_decode (u # v # rest) =
     (if 0xD800 \<le> u \<and> u \<le> 0xDBFF \<and> 0xDC00 \<le> v \<and> v \<le> 0xDFFF
      then (0x10000 + (u - 0xD800) * 0x400 + (v - 0xDC00)) # utf16_decode rest
      else (if 0xD800 \<le> u \<and> u \<le> 0xDFFF then 0xFFFD else u) # utf16_decode (v # rest))"

definition utf8_of_code_point :: "nat \<Rightarrow> byte list" where
  "utf8_of_code_point cp =
     (if cp < 0x80 then [of_nat cp]
      else if cp < 0x800 then [of_nat (0xC0 + cp div 64), of_nat (0x80 + cp mod 64)]
      else if cp < 0x10000 then
        [of_nat (0xE0 + cp div 4096), of_nat (0x80 + cp div 64 mod 64), of_nat (0x80 + cp mod 64)]
      else
        [of_nat (0xF0 + cp div 262144), of_nat (0x80 + cp div 4096 mod 64),
         of_nat (0x80 + cp div 64 mod 64), of_nat (0x80 + cp mod 64)])"

definition TextEncoder_encode :: "jsstring \<Rightarrow> byte list" where
  "TextEncoder_encode str = concat (map utf8_of_code_point (utf16_decode str))"

text \<open>\<^verbatim>\<open>PGP.text\<close> (named \<open>text_cmd\<close> here).\<close>

definition text_cmd :: "int \<Rightarrow> int \<Rightarrow> int \<Rightarrow> jsstring \<Rightarrow> byte list" where
  "text_cmd x y font str =
     (let enc = TextEncoder_encode str
      in frame TEXT ([u8 (x AND 0xFF), u8 (drop_bit 8 x AND 0xFF),
                      u8 (y AND 0xFF), u8 (drop_bit 8 y AND 0xFF),
                      u8 font, u8 (int (length enc))] @ enc))"

definition rect :: "int \<Rightarrow> int \<Rightarrow> int \<Rightarrow> int \<Rightarrow> int \<Rightarrow> byte list" where
  "rect x y w h fill =
     frame RECT [u8 (x AND 0xFF), u8 (drop_bit 8 x AND 0xFF),
                 u8 (y AND 0xFF), u8 (drop_bit 8 y AND 0xFF),
                 u8 (w AND 0xFF), u8 (drop_bit 8 w AND 0xFF),
                 u8 (h AND 0xFF), u8 (drop_bit 8 h AND 0xFF),
                 u8 fill]"

definition feed :: "int \<Rightarrow> byte list" where
  "feed lines = frame FEED [u8 (lines AND 0xFF), u8 (drop_bit 8 lines AND 0xFF)]"

definition stop :: "byte list" where
  "stop = frame STOP []"

definition setMode :: "int \<Rightarrow> byte list" where
  "setMode mode = frame SET_MODE [u8 mode]"

definition pollInput :: "byte list" where
  "pollInput = frame POLL_INPUT []"

definition waitButton :: "byte list" where
  "waitButton = frame WAIT_BUTTON []"

definition programStart :: "byte list" where
  "programStart = frame PROGRAM_START []"

definition programEnd :: "byte list" where
  "programEnd = frame PROGRAM_END []"

definition spriteDef :: "int \<Rightarrow> int \<Rightarrow> int \<Rightarrow> byte list \<Rightarrow> byte list" where
  "spriteDef ident w h data = frame SPRITE_DEF ([u8 ident, u8 w, u8 h] @ data)"

definition spriteDraw :: "int \<Rightarrow> int \<Rightarrow> int \<Rightarrow> byte list" where
  "spriteDraw ident x y =
     frame SPRITE_DRAW [u8 ident, u8 (x AND 0xFF), u8 (drop_bit 8 x AND 0xFF),
                        u8 (y AND 0xFF), u8 (drop_bit 8 y AND 0xFF)]"

definition label :: "int \<Rightarrow> byte list" where
  "label ident = frame LABEL [u8 (drop_bit 8 ident AND 0xFF), u8 (ident AND 0xFF)]"

definition jump :: "int \<Rightarrow> byte list" where
  "jump labelId = frame JUMP [u8 (drop_bit 8 labelId AND 0xFF), u8 (labelId AND 0xFF)]"

definition jumpIfBtn :: "int \<Rightarrow> int \<Rightarrow> byte list" where
  "jumpIfBtn buttonMask labelId =
     (let mask = (if buttonMask = 0 then BTN_ANY else buttonMask)
      in frame JUMP_IF_BTN [u8 mask, u8 (drop_bit 8 labelId AND 0xFF), u8 (labelId AND 0xFF)])"

definition randomJump :: "int list \<Rightarrow> byte list" where
  "randomJump labelIds =
     frame RANDOM_JUMP
       (u8 (int (length labelIds))
        # concat (map (\<lambda>l. [u8 (drop_bit 8 l AND 0xFF), u8 (l AND 0xFF)]) labelIds))"

definition setVar :: "int \<Rightarrow> int \<Rightarrow> byte list" where
  "setVar varId v = frame SET_VAR [u8 varId, u8 (drop_bit 8 v AND 0xFF), u8 (v AND 0xFF)]"

definition jumpIfVar :: "int \<Rightarrow> int \<Rightarrow> int \<Rightarrow> int \<Rightarrow> byte list" where
  "jumpIfVar varId op v labelId =
     frame JUMP_IF_VAR [u8 varId, u8 op,
                        u8 (drop_bit 8 v AND 0xFF), u8 (v AND 0xFF),
                        u8 (drop_bit 8 labelId AND 0xFF), u8 (labelId AND 0xFF)]"

definition jumpIfFader :: "int \<Rightarrow> int \<Rightarrow> int \<Rightarrow> byte list" where
  "jumpIfFader op threshold labelId =
     frame JUMP_IF_FADER [u8 op,
                          u8 (threshold AND 0xFF), u8 (drop_bit 8 threshold AND 0xFF),
                          u8 (drop_bit 8 labelId AND 0xFF), u8 (labelId AND 0xFF)]"

definition waitFader :: "int \<Rightarrow> int \<Rightarrow> byte list" where
  "waitFader op threshold =
     frame WAIT_FADER [u8 op, u8 (threshold AND 0xFF), u8 (drop_bit 8 threshold AND 0xFF)]"

definition setFeedMode :: "int \<Rightarrow> byte list" where
  "setFeedMode mode = frame SET_FEED_MODE [u8 mode]"

subsection \<open>Byte order of the 16-bit fields\<close>

lemma branching_label_fields_big_endian:
  "frame_payload (label l) = writeU16BE l"
  "frame_payload (jump l) = writeU16BE l"
  "drop 1 (frame_payload (jumpIfBtn m l)) = writeU16BE l"
  "frame_payload (randomJump ls) = u8 (int (length ls)) # concat (map writeU16BE ls)"
  "frame_payload (setVar i v) = u8 i # writeU16BE v"
  "frame_payload (jumpIfVar i op v l) = [u8 i, u8 op] @ writeU16BE v @ writeU16BE l"
  by (simp_all add: label_def jump_def jumpIfBtn_def randomJump_def setVar_def jumpIfVar_def
        frame_payload_eq writeU16BE_def [abs_def])

lemma general_fields_little_endian:
  "frame_payload (setSpeed v) = writeU16LE v"
  "frame_payload (setHeat v) = writeU16LE v"
  "frame_payload (feed v) = writeU16LE v"
  "frame_payload (fillLine p c) = u8 (p AND 0xFF) # writeU16LE c"
  "frame_payload (rect x y w h f) = writeU16LE x @ writeU16LE y @ writeU16LE w @ writeU16LE h @ [u8 f]"
  "frame_payload (spriteDraw i x y) = u8 i # writeU16LE x @ writeU16LE y"
  "take 4 (frame_payload (text_cmd x y f s)) = writeU16LE x @ writeU16LE y"
  by (simp_all add: setSpeed_def setHeat_def feed_def fillLine_def rect_def spriteDraw_def text_cmd_def
        frame_payload_eq writeU16LE_def Let_def)

lemma fader_fields:
  "frame_payload (jumpIfFader op t l) = u8 op # writeU16LE t @ writeU16BE l"
  "frame_payload (waitFader op t) = u8 op # writeU16LE t"
  by (simp_all add: jumpIfFader_def waitFader_def frame_payload_eq writeU16LE_def writeU16BE_def)

text \<open>
  Claim C1 holds for the label ids and variable values (\<open>branching_label_fields_big_endian\<close>)
  and for the general commands (\<open>general_fields_little_endian\<close>), and fails for the
  thresholds: \<^verbatim>\<open>PGP.jumpIfFader\<close> and \<^verbatim>\<open>PGP.waitFader\<close> stand under the heading
  ``Branching commands (big-endian for firmware)'' and write the threshold low byte
  first. For the threshold \<open>0x1234\<close> the payload holds \<open>0x34 0x12\<close>, where the big-endian
  encoding, which \<^verbatim>\<open>PGP.setVar\<close> uses for its value, is \<open>0x12 0x34\<close>.
\<close>

theorem fader_threshold_byte_order:
  "frame_payload (waitFader 2 0x1234) = [0x02, 0x34, 0x12]
   \<and> frame_payload (jumpIfFader 2 0x1234 0x0007) = [0x02, 0x34, 0x12, 0x00, 0x07]
   \<and> writeU16BE 0x1234 = [0x12, 0x34]
   \<and> frame_payload (setVar 1 0x1234) = [0x01, 0x12, 0x34]"
  by (simp add: waitFader_def jumpIfFader_def setVar_def frame_payload_eq writeU16BE_def u8_def)

section \<open>Font resolver\<close>



text \<open>\<^verbatim>\<open>Math.round\<close>: the nearest integer, a half rounded up.\<close>

definition Math_round :: "rat \<Rightarrow> int" where
  "Math_round v = \<lfloor>v + 1 / 2\<rfloor>"


definition encodeFontByte :: "int \<Rightarrow> int \<Rightarrow> int" where
  "encodeFontByte baseFont scale =
     (if baseFont \<ge> 2 \<or> scale > 2 then push_bit 2 scale OR (baseFont AND 0x03)
      else (if baseFont = 0 then scale - 1 else 2 + scale - 1))"

text \<open>\<^verbatim>\<open>hasCJK\<close>: the five ranges of the regular expression, on UTF-16 code units.\<close>

definition hasCJK :: "jsstring \<Rightarrow> bool" where
  "hasCJK str =
     list_ex (\<lambda>c. (0x3040 \<le> c \<and> c \<le> 0x309F) \<or> (0x30A0 \<le> c \<and> c \<le> 0x30FF)
                \<or> (0x4E00 \<le> c \<and> c \<le> 0x9FFF) \<or> (0x3400 \<le> c \<and> c \<le> 0x4DBF)
                \<or> (0xFF65 \<le> c \<and> c \<le> 0xFF9F)) str"

section \<open>Sections and blocks\<close>

text \<open>
  A block is the object a \<^verbatim>\<open>Section\<close> method pushes: its \<^verbatim>\<open>type\<close> is the
  constructor, its other properties are the arguments, in the order of the object
  literal (\<open>Text x str baseFont scale sizeMm\<close>, \<open>Rect x w h fill\<close>, \<open>Sprite id x y\<close>,
  \<open>JumpIfBtn buttonMask labelId\<close>, \<open>JumpIfVar varId op value labelId\<close>,
  \<open>JumpIfFader op threshold labelId\<close>, \<open>WaitFader op threshold\<close>).
\<close>

datatype block =
    Text int jsstring int int "rat option"
  | Rect int int int int
  | Fill int int
  | Feed int
  | HLine int
  | Image "byte list list"
  | WaitButton
  | Sprite int int int
  | Label int
  | Jump int
  | JumpIfBtn int int
  | RandomJump "int list"
  | SetVar int int
  | JumpIfVar int int int int
  | JumpIfFader int int int
  | WaitFader int int
  | SetFeedMode int


text \<open>\<^verbatim>\<open>Game._blockToPGP\<close>.\<close>

fun blockToPGP :: "block \<Rightarrow> byte list list" where
  "blockToPGP (Text x str baseFont scale sizeMm) =
     (if hasCJK str
      then (let scale' = (case sizeMm of
                            None \<Rightarrow> scale
                          | Some mm \<Rightarrow> max 1 (min 15 (Math_round (mm * 8 / 8))));
                fontByte = encodeFontByte 2 scale'
            in [text_cmd x 0 fontByte str])
      else (let fontByte = encodeFontByte baseFont scale
            in [text_cmd x 0 fontByte str]))"
| "blockToPGP (Rect x w h fill) = [rect x 0 w h fill]"
| "blockToPGP (Fill pattern count) = [fillLine pattern count]"
| "blockToPGP (Feed lines) = [feed lines]"
| "blockToPGP (HLine thickness) = [fillLine 0xFF thickness]"
| "blockToPGP (Image rows) = map rawLineRle rows"
| "blockToPGP WaitButton = [waitButton]"
| "blockToPGP (Sprite ident x y) = [spriteDraw ident x y]"
| "blockToPGP (Label ident) = [label ident]"
| "blockToPGP (Jump labelId) = [jump labelId]"
| "blockToPGP (JumpIfBtn buttonMask labelId) = [jumpIfBtn buttonMask labelId]"
| "blockToPGP (RandomJump labelIds) = [randomJump labelIds]"
| "blockToPGP (SetVar varId v) = [setVar varId v]"
| "blockToPGP (JumpIfVar varId op v labelId) = [jumpIfVar varId op v labelId]"
| "blockToPGP (JumpIfFader op threshold labelId) = [jumpIfFader op threshold labelId]"
| "blockToPGP (WaitFader op threshold) = [waitFader op threshold]"
| "blockToPGP (SetFeedMode mode) = [setFeedMode mode]"












section \<open>Dynamic line generator\<close>

text \<open>
  The object handed to a per-line callback (\<^verbatim>\<open>class LineContext\<close>): \<open>l_line\<close>,
  \<open>l_maxLines\<close> and \<open>l_vars\<close> are \<^verbatim>\<open>line\<close>, \<^verbatim>\<open>maxLines\<close> and \<^verbatim>\<open>vars\<close> (the variable
  table of the game, of any type \<open>'v\<close>); \<open>l_buf\<close>, \<open>l_done\<close>, \<open>l_goto\<close> and \<open>l_speed\<close>
  are \<^verbatim>\<open>_buf\<close>, \<^verbatim>\<open>_done\<close>, \<^verbatim>\<open>_goto\<close> and \<^verbatim>\<open>_speed\<close>. The constant \<^verbatim>\<open>input\<close>
  object is left out. \<open>l_oob\<close> is not a field of the source: it records that a drawing
  operation addressed a byte outside \<^verbatim>\<open>_buf\<close>. A typed array drops such a write
  without a trace; the flag keeps the trace, so that the absence of such writes can be
  stated.
\<close>

record 'v LineContext =
  l_line :: nat
  l_maxLines :: nat
  l_vars :: 'v
  l_buf :: "byte list"
  l_done :: bool
  l_goto :: "string option"
  l_speed :: "int option"
  l_oob :: bool

definition new_LineContext :: "'v \<Rightarrow> nat \<Rightarrow> 'v LineContext" where
  "new_LineContext gameVars maxL =
     \<lparr>l_line = 0, l_maxLines = maxL, l_vars = gameVars, l_buf = replicate BPL 0,
      l_done = False, l_goto = None, l_speed = None, l_oob = False\<rparr>"

text \<open>
  \<^verbatim>\<open>this._buf[i] |= m\<close> and \<^verbatim>\<open>this._buf[i] &= m\<close>: inside the array the byte is combined
  with the mask and stored back cut to eight bits; outside, the array is unchanged.
\<close>

definition or_at :: "'v LineContext \<Rightarrow> int \<Rightarrow> int \<Rightarrow> 'v LineContext" where
  "or_at c i m =
     (if 0 \<le> i \<and> i < int (length (l_buf c))
      then c\<lparr>l_buf := (l_buf c)[nat i := u8 (uint (l_buf c ! nat i) OR m)]\<rparr>
      else c\<lparr>l_oob := True\<rparr>)"

definition and_at :: "'v LineContext \<Rightarrow> int \<Rightarrow> int \<Rightarrow> 'v LineContext" where
  "and_at c i m =
     (if 0 \<le> i \<and> i < int (length (l_buf c))
      then c\<lparr>l_buf := (l_buf c)[nat i := u8 (uint (l_buf c ! nat i) AND m)]\<rparr>
      else c\<lparr>l_oob := True\<rparr>)"

definition LineContext_emit :: "byte list \<Rightarrow> 'v LineContext \<Rightarrow> 'v LineContext" where
  "LineContext_emit src c = c\<lparr>l_buf := u8_set (l_buf c) (take BPL src) 0\<rparr>"

text \<open>
  \<^verbatim>\<open>pixel(x, on)\<close> and \<^verbatim>\<open>range(x1, x2)\<close>. Coordinates are rational numbers: every
  finite JavaScript number is one, and comparison and \<^verbatim>\<open>Math.floor\<close> are exact on them.
\<close>

definition LineContext_pixel :: "rat \<Rightarrow> bool \<Rightarrow> 'v LineContext \<Rightarrow> 'v LineContext" where
  "LineContext_pixel x on c =
     (if x < 0 \<or> x \<ge> of_int WIDTH then c
      else (let xi = \<lfloor>x\<rfloor>
            in if on then or_at c (drop_bit 3 xi) (push_bit (nat (7 - (xi AND 7))) 1)
               else and_at c (drop_bit 3 xi) (NOT (push_bit (nat (7 - (xi AND 7))) 1))))"

function range_loop :: "int \<Rightarrow> int \<Rightarrow> 'v LineContext \<Rightarrow> 'v LineContext" where
  "range_loop x x2 c =
     (if x < x2
      then range_loop (x + 1) x2 (or_at c (drop_bit 3 x) (push_bit (nat (7 - (x AND 7))) 1))
      else c)"
  by pat_completeness auto
termination
  by (relation "measure (\<lambda>(x, x2, c). nat (x2 - x))") auto

declare range_loop.simps [simp del]

definition LineContext_range :: "rat \<Rightarrow> rat \<Rightarrow> 'v LineContext \<Rightarrow> 'v LineContext" where
  "LineContext_range x1 x2 c = range_loop (max 0 \<lfloor>x1\<rfloor>) (min WIDTH \<lfloor>x2\<rfloor>) c"

definition LineContext_setSpeed :: "int \<Rightarrow> 'v LineContext \<Rightarrow> 'v LineContext" where
  "LineContext_setSpeed pps c = c\<lparr>l_speed := Some pps\<rparr>"

definition LineContext_done :: "'v LineContext \<Rightarrow> 'v LineContext" where
  "LineContext_done c = c\<lparr>l_done := True\<rparr>"

definition LineContext_goto :: "string \<Rightarrow> 'v LineContext \<Rightarrow> 'v LineContext" where
  "LineContext_goto sectionId c = c\<lparr>l_goto := Some sectionId, l_done := True\<rparr>"

subsection \<open>Drawing stays inside the line buffer\<close>

lemma or_at_inside:
  "0 \<le> i \<Longrightarrow> i < int (length (l_buf c)) \<Longrightarrow>
   l_oob (or_at c i m) = l_oob c \<and> length (l_buf (or_at c i m)) = length (l_buf c)"
  by (simp add: or_at_def)

lemma and_at_inside:
  "0 \<le> i \<Longrightarrow> i < int (length (l_buf c)) \<Longrightarrow>
   l_oob (and_at c i m) = l_oob c \<and> length (l_buf (and_at c i m)) = length (l_buf c)"
  by (simp add: and_at_def)

lemma byte_index_bound:
  assumes "0 \<le> x" and "x < 576"
  shows "0 \<le> drop_bit 3 x \<and> drop_bit 3 (x :: int) < 72"
proof -
  have "0 \<le> x div 8 \<and> x div 8 < 72" using assms by presburger
  then show ?thesis by (simp add: drop_bit_eq_div)
qed

lemma range_loop_safe:
  "0 \<le> x \<Longrightarrow> x2 \<le> 576 \<Longrightarrow> length (l_buf c) = 72 \<Longrightarrow>
   l_oob (range_loop x x2 c) = l_oob c \<and> length (l_buf (range_loop x x2 c)) = 72"
proof (induction x x2 c rule: range_loop.induct)
  case (1 x x2 c)
  show ?case
  proof (cases "x < x2")
    case False
    then show ?thesis using "1.prems" by (subst (1 2) range_loop.simps) simp
  next
    case True
    let ?c = "or_at c (drop_bit 3 x) (push_bit (nat (7 - (x AND 7))) 1)"
    have b: "0 \<le> drop_bit 3 x \<and> drop_bit 3 x < int (length (l_buf c))"
      using byte_index_bound [of x] True "1.prems" by simp
    then have s: "l_oob ?c = l_oob c \<and> length (l_buf ?c) = 72"
      using or_at_inside [of "drop_bit 3 x" c] "1.prems" by simp
    have "l_oob (range_loop (x + 1) x2 ?c) = l_oob ?c
            \<and> length (l_buf (range_loop (x + 1) x2 ?c)) = 72"
      using "1.IH" [OF True] "1.prems" s by simp
    moreover have "range_loop x x2 c = range_loop (x + 1) x2 ?c"
      using True by (subst range_loop.simps) simp
    ultimately show ?thesis using s by simp
  qed
qed

lemma range_loop_empty: "x2 \<le> x \<Longrightarrow> range_loop x x2 c = c"
  by (subst range_loop.simps) simp

text \<open>Clamping a coordinate to the interval from 0 to 576.\<close>

definition clamp576 :: "rat \<Rightarrow> rat" where
  "clamp576 x = max 0 (min 576 x)"

lemma range_clamped:
  "LineContext_range x1 x2 c = LineContext_range (clamp576 x1) (clamp576 x2) c"
proof -
  have f1: "\<lfloor>clamp576 x\<rfloor> = max 0 (min 576 \<lfloor>x\<rfloor>)" for x
    unfolding clamp576_def by (simp add: max_def min_def floor_less_iff le_floor_iff) 
  show ?thesis
  proof (cases "\<lfloor>x1\<rfloor> \<le> 576")
    case True
    then have a: "max 0 \<lfloor>clamp576 x1\<rfloor> = max 0 \<lfloor>x1\<rfloor>" by (simp add: f1)
    show ?thesis
    proof (cases "0 \<le> \<lfloor>x2\<rfloor>")
      case True
      then have "min WIDTH \<lfloor>clamp576 x2\<rfloor> = min WIDTH \<lfloor>x2\<rfloor>" by (simp add: f1 WIDTH_def)
      with a show ?thesis by (simp add: LineContext_range_def)
    next
      case False
      then have "min WIDTH \<lfloor>clamp576 x2\<rfloor> = 0" "min WIDTH \<lfloor>x2\<rfloor> < 0" by (simp_all add: f1 WIDTH_def)
      then show ?thesis by (simp add: LineContext_range_def range_loop_empty)
    qed
  next
    case False
    then have "max 0 \<lfloor>clamp576 x1\<rfloor> = 576" "max 0 \<lfloor>x1\<rfloor> > 576" by (simp_all add: f1)
    moreover have "min WIDTH \<lfloor>clamp576 x2\<rfloor> \<le> 576" "min WIDTH \<lfloor>x2\<rfloor> \<le> 576" by (simp_all add: WIDTH_def)
    ultimately show ?thesis by (simp add: LineContext_range_def range_loop_empty)
  qed
qed


lemma pixel_safe:
  assumes "length (l_buf c) = 72"
  shows "l_oob (LineContext_pixel x on c) = l_oob c
         \<and> length (l_buf (LineContext_pixel x on c)) = 72"
proof (cases "x < 0 \<or> x \<ge> of_int WIDTH")
  case True
  then show ?thesis using assms by (simp add: LineContext_pixel_def)
next
  case False
  then have "0 \<le> \<lfloor>x\<rfloor>" and "\<lfloor>x\<rfloor> < 576"
    by (simp_all add: WIDTH_def floor_less_iff)
  then have b: "0 \<le> drop_bit 3 \<lfloor>x\<rfloor> \<and> drop_bit 3 \<lfloor>x\<rfloor> < int (length (l_buf c))"
    using byte_index_bound [of "\<lfloor>x\<rfloor>"] assms by simp
  show ?thesis
    using False b assms or_at_inside [of "drop_bit 3 \<lfloor>x\<rfloor>" c] and_at_inside [of "drop_bit 3 \<lfloor>x\<rfloor>" c]
    by (simp add: LineContext_pixel_def Let_def)
qed

lemma range_safe:
  assumes "length (l_buf c) = 72"
  shows "l_oob (LineContext_range x1 x2 c) = l_oob c
         \<and> length (l_buf (LineContext_range x1 x2 c)) = 72"
  unfolding LineContext_range_def
  using assms by (intro range_loop_safe) (simp_all add: WIDTH_def)

lemma emit_safe:
  assumes "length (l_buf c) = 72"
  shows "l_oob (LineContext_emit src c) = l_oob c
         \<and> length (l_buf (LineContext_emit src c)) = 72"
  using assms by (simp add: LineContext_emit_def u8_set_def BPL_def)

text \<open>
  Claim C10. On a context with its 72-byte buffer, \<^verbatim>\<open>pixel(x, on)\<close> with \<open>x < 0\<close> or
  \<open>x \<ge> 576\<close> returns the context unchanged; \<^verbatim>\<open>range(x1, x2)\<close> draws what it draws with
  both bounds clamped to the interval from 0 to 576; and no call of \<^verbatim>\<open>pixel\<close>,
  \<^verbatim>\<open>range\<close> or \<^verbatim>\<open>emit\<close>, for any arguments, addresses a byte outside the buffer
  (\<open>l_oob\<close> stays as it was) or changes the buffer's length.
\<close>

theorem LineContext_drawing_in_bounds:
  assumes "length (l_buf c) = 72"
  shows "(x < 0 \<or> x \<ge> 576 \<longrightarrow> LineContext_pixel x on c = c)
         \<and> l_oob (LineContext_pixel x on c) = l_oob c
         \<and> length (l_buf (LineContext_pixel x on c)) = 72
         \<and> LineContext_range x1 x2 c = LineContext_range (clamp576 x1) (clamp576 x2) c
         \<and> l_oob (LineContext_range x1 x2 c) = l_oob c
         \<and> length (l_buf (LineContext_range x1 x2 c)) = 72
         \<and> l_oob (LineContext_emit src c) = l_oob c
         \<and> length (l_buf (LineContext_emit src c)) = 72"
proof -
  have "x < 0 \<or> x \<ge> 576 \<longrightarrow> LineContext_pixel x on c = c"
    by (simp add: LineContext_pixel_def WIDTH_def)
  moreover note pixel_safe [OF assms, of x on] range_safe [OF assms, of x1 x2]
    emit_safe [OF assms, of src] range_clamped [of x1 x2 c]
  ultimately show ?thesis by blast
qed

theorem LineContext_drawing_in_bounds_witness:
  "length (l_buf (new_LineContext () 10)) = 72
   \<and> ((-1 :: rat) < 0 \<or> (-1 :: rat) \<ge> 576)
   \<and> LineContext_pixel (-1) True (new_LineContext () 10) = new_LineContext () 10
   \<and> l_oob (LineContext_range (-5) 1000 (new_LineContext () 10)) = False
   \<and> length (l_buf (LineContext_range (-5) 1000 (new_LineContext () 10))) = 72"
proof -
  have h: "length (l_buf (new_LineContext () 10)) = 72"
    by (simp add: new_LineContext_def BPL_def)
  have o: "l_oob (new_LineContext () 10) = False" by (simp add: new_LineContext_def)
  have x: "(-1 :: rat) < 0 \<or> (-1 :: rat) \<ge> 576" by simp
  note t = LineContext_drawing_in_bounds [OF h, of "-1" True "-5" 1000 "[]"]
  from t x have p: "LineContext_pixel (-1) True (new_LineContext () 10) = new_LineContext () 10"
    by blast
  from t have "l_oob (LineContext_range (-5) 1000 (new_LineContext () 10))
                 = l_oob (new_LineContext () 10)"
    and l: "length (l_buf (LineContext_range (-5) 1000 (new_LineContext () 10))) = 72"
    by blast+
  with o have r: "l_oob (LineContext_range (-5) 1000 (new_LineContext () 10)) = False"
    by simp
  from h x p r l show ?thesis by blast
qed

section \<open>Program compiler\<close>

text \<open>
  A \<^verbatim>\<open>Section\<close> with the fields compilation reads. The callbacks \<^verbatim>\<open>_onLine\<close>,
  \<^verbatim>\<open>_onEnter\<close> and \<^verbatim>\<open>_onExit\<close> change the context they are given and are functions
  from the context before the call to the context after it; \<^verbatim>\<open>_endCondition\<close> is a
  predicate on the context. \<open>None\<close> is \<^verbatim>\<open>null\<close>. A \<^verbatim>\<open>Game\<close> holds its sections in a
  \<^verbatim>\<open>Map\<close>, which is the list of its entries in insertion order; \<^verbatim>\<open>sections.get(id)\<close> is
  \<open>map_of\<close>.
\<close>

record 'v Section =
  feedMode :: string
  speed :: int
  blocks :: "block list"
  onLine :: "('v LineContext \<Rightarrow> 'v LineContext) option"
  onEnter :: "('v LineContext \<Rightarrow> 'v LineContext) option"
  onExit :: "('v LineContext \<Rightarrow> 'v LineContext) option"
  endCondition :: "('v LineContext \<Rightarrow> bool) option"
  maxLines :: nat

record sprite =
  spr_id :: int
  spr_w :: int
  spr_h :: int
  spr_data :: "byte list"

record 'v Game =
  sections :: "(string \<times> 'v Section) list"
  flow :: "string list"
  vars :: 'v
  sprites :: "(int \<times> sprite) list"

subsection \<open>Dynamic sections\<close>

text \<open>
  The \<^verbatim>\<open>for\<close> loop of \<^verbatim>\<open>Game._runDynamic\<close>: line \<open>i\<close> starts from a cleared buffer and a
  cleared \<^verbatim>\<open>_speed\<close>, the callback runs, the buffer is copied to the scan lines, and the
  loop ends on \<^verbatim>\<open>_done\<close> or on the end condition. The result is the scan lines and the
  context after the loop.
\<close>

function run_loop ::
  "('v LineContext \<Rightarrow> 'v LineContext) \<Rightarrow> ('v LineContext \<Rightarrow> bool) option \<Rightarrow> nat \<Rightarrow> nat
     \<Rightarrow> 'v LineContext \<Rightarrow> byte list list \<times> 'v LineContext" where
  "run_loop onL endC maxL i lctx =
     (if i < maxL
      then (let c1 = lctx\<lparr>l_line := i, l_buf := replicate (length (l_buf lctx)) 0, l_speed := None\<rparr>;
                c2 = onL c1;
                row = l_buf c2
            in if l_done c2 then ([row], c2)
               else if (case endC of Some e \<Rightarrow> e c2 | None \<Rightarrow> False) then ([row], c2)
               else (let (rows, c3) = run_loop onL endC maxL (i + 1) c2 in (row # rows, c3)))
      else ([], lctx))"
  by pat_completeness auto
termination
  by (relation "measure (\<lambda>(onL, endC, maxL, i, lctx). maxL - i)") auto

declare run_loop.simps [simp del]

text \<open>
  \<^verbatim>\<open>Game._runDynamic(section)\<close>, for a section whose \<^verbatim>\<open>_onLine\<close> is \<open>onL\<close>. The context
  shares the variable table with the game, so the table as the callbacks leave it is
  returned with the scan lines.
\<close>

definition runDynamic ::
  "'v \<Rightarrow> 'v Section \<Rightarrow> ('v LineContext \<Rightarrow> 'v LineContext) \<Rightarrow> byte list list \<times> 'v" where
  "runDynamic gameVars s onL =
     (let lctx = new_LineContext gameVars (maxLines s);
          lctx1 = (case onEnter s of Some f \<Rightarrow> f lctx | None \<Rightarrow> lctx);
          (scanlines, lctx2) = run_loop onL (endCondition s) (maxLines s) 0 lctx1;
          lctx3 = (case onExit s of Some f \<Rightarrow> f lctx2 | None \<Rightarrow> lctx2)
      in (scanlines, l_vars lctx3))"

subsection \<open>Sections\<close>

text \<open>
  \<^verbatim>\<open>Game._compileSectionFrames\<close>: the mode and speed frames (\<open>sectionHeader\<close>), then the
  scan lines of a dynamic section or the frames of the blocks of a static one.

  The mode is \<^verbatim>\<open>{ auto: 0, elastic: 1, precise: 2 }[section.feedMode] ?? 0\<close>, a property
  lookup on an object literal. For one of the three own keys it is the number; for a
  key the literal inherits from \<^verbatim>\<open>Object.prototype\<close> it is the inherited function or
  object, which is neither \<^verbatim>\<open>null\<close> nor \<^verbatim>\<open>undefined\<close> and so is kept by \<^verbatim>\<open>??\<close>; for
  every other string it is \<^verbatim>\<open>undefined\<close>, replaced by 0. The inherited keys are those
  of the standard \<^verbatim>\<open>Object.prototype\<close> (a property of the platform). An inherited
  value differs from 0 under \<^verbatim>\<open>!==\<close> and \<^verbatim>\<open>===\<close>, and \<^verbatim>\<open>new Uint8Array([mode])\<close>
  stores it as the byte 0 (its number value is NaN).
\<close>

datatype feed_mode_value = ModeNumber int | ModeInherited

definition objectPrototypeKeys :: "string list" where
  "objectPrototypeKeys =
     [''constructor'', ''hasOwnProperty'', ''isPrototypeOf'', ''propertyIsEnumerable'',
      ''toLocaleString'', ''toString'', ''valueOf'', ''__proto__'',
      ''__defineGetter__'', ''__defineSetter__'', ''__lookupGetter__'', ''__lookupSetter__'']"

definition feedModeLookup :: "string \<Rightarrow> feed_mode_value" where
  "feedModeLookup m =
     (if m = ''auto'' then ModeNumber 0
      else if m = ''elastic'' then ModeNumber 1
      else if m = ''precise'' then ModeNumber 2
      else if m \<in> set objectPrototypeKeys then ModeInherited
      else ModeNumber 0)"

fun modeByte :: "feed_mode_value \<Rightarrow> int" where
  "modeByte (ModeNumber n) = n"
| "modeByte ModeInherited = 0"

definition sectionHeader :: "'v Section \<Rightarrow> byte list list" where
  "sectionHeader s =
     (let mode = feedModeLookup (feedMode s)
      in (if mode \<noteq> ModeNumber 0 then [setMode (modeByte mode)] else [])
         @ (if feedMode s = ''auto'' \<or> mode = ModeNumber 0 then [setSpeed (speed s)] else []))"

definition compileSectionFrames :: "'v \<Rightarrow> 'v Section \<Rightarrow> byte list list \<times> 'v" where
  "compileSectionFrames gameVars s =
     (case onLine s of
        Some onL \<Rightarrow>
          (let (scanlines, gameVars') = runDynamic gameVars s onL
           in (sectionHeader s @ map rawLineRle scanlines, gameVars'))
      | None \<Rightarrow> (sectionHeader s @ concat (map blockToPGP (blocks s)), gameVars))"

text \<open>
  The header for the usual feed modes, and for a feed mode that is an inherited key:
  there the source emits \<^verbatim>\<open>SET_MODE\<close> with the byte 0 and no \<^verbatim>\<open>SET_SPEED\<close>.
\<close>

lemma sectionHeader_modes:
  "feedMode s = ''auto'' \<Longrightarrow> sectionHeader s = [setSpeed (speed s)]"
  "feedMode s = ''elastic'' \<Longrightarrow> sectionHeader s = [setMode 1]"
  "feedMode s = ''precise'' \<Longrightarrow> sectionHeader s = [setMode 2]"
  "feedMode s = ''constructor'' \<Longrightarrow> sectionHeader s = [setMode 0]"
  "feedMode s = ''toString'' \<Longrightarrow> sectionHeader s = [setMode 0]"
  "feedMode s = ''manual'' \<Longrightarrow> sectionHeader s = [setSpeed (speed s)]"
  by (simp_all add: sectionHeader_def feedModeLookup_def objectPrototypeKeys_def)

subsection \<open>Branch detection and label validation\<close>

fun branchingType :: "block \<Rightarrow> bool" where
  "branchingType (Label _) = True"
| "branchingType (Jump _) = True"
| "branchingType (JumpIfBtn _ _) = True"
| "branchingType (RandomJump _) = True"
| "branchingType (SetVar _ _) = True"
| "branchingType (JumpIfVar _ _ _ _) = True"
| "branchingType (JumpIfFader _ _ _) = True"
| "branchingType (WaitFader _ _) = True"
| "branchingType (SetFeedMode _) = True"
| "branchingType _ = False"

definition hasBranchingCommands :: "'v Game \<Rightarrow> bool" where
  "hasBranchingCommands g = list_ex (\<lambda>(sid, s). list_ex branchingType (blocks s)) (sections g)"

text \<open>
  \<^verbatim>\<open>Game._validateLabels\<close>. The \<^verbatim>\<open>Set\<close> of defined labels is the list of its
  elements in insertion order. An error message
  \<^verbatim>\<open>Section '<sid>': <kind> to undefined label <labelId>\<close> is the value
  \<open>UndefinedLabel sid kind labelId\<close>; the \<^verbatim>\<open>CompileError\<close> carries the defined labels
  and the messages, as the context object of the source does.
\<close>

definition set_add :: "'a list \<Rightarrow> 'a \<Rightarrow> 'a list" where
  "set_add xs x = (if x \<in> set xs then xs else xs @ [x])"

fun addLabel :: "int list \<Rightarrow> block \<Rightarrow> int list" where
  "addLabel acc (Label ident) = set_add acc ident"
| "addLabel acc _ = acc"

definition definedLabels :: "'v Game \<Rightarrow> int list" where
  "definedLabels g = foldl (\<lambda>acc (sid, s). foldl addLabel acc (blocks s)) [] (sections g)"

datatype label_error = UndefinedLabel string string int

fun blockErrors :: "int list \<Rightarrow> string \<Rightarrow> block \<Rightarrow> label_error list" where
  "blockErrors defined sid (Jump labelId) =
     (if labelId \<notin> set defined then [UndefinedLabel sid ''jump'' labelId] else [])"
| "blockErrors defined sid (JumpIfBtn buttonMask labelId) =
     (if labelId \<notin> set defined then [UndefinedLabel sid ''jump'' labelId] else [])"
| "blockErrors defined sid (JumpIfVar varId op v labelId) =
     (if labelId \<notin> set defined then [UndefinedLabel sid ''jumpIfVar'' labelId] else [])"
| "blockErrors defined sid (RandomJump labelIds) =
     map (UndefinedLabel sid ''randomJump'') (filter (\<lambda>labelId. labelId \<notin> set defined) labelIds)"
| "blockErrors defined sid _ = []"

datatype CompileError = CompileError "int list" "label_error list"

definition validateLabels :: "'v Game \<Rightarrow> CompileError + unit" where
  "validateLabels g =
     (let defined = definedLabels g;
          errors = concat (map (\<lambda>(sid, s). concat (map (blockErrors defined sid) (blocks s)))
                     (sections g))
      in if length errors > 0 then Inl (CompileError defined errors) else Inr ())"

subsection \<open>Compilation\<close>

text \<open>
  \<^verbatim>\<open>Game.compile\<close>. \<open>flowStep\<close> and \<open>restStep\<close> are the bodies of the two loops of a
  branching program (over \<^verbatim>\<open>_flow\<close>, then over the section table), \<open>plainStep\<close> is
  the body of the loop of a program without branching. \<open>compileFrames\<close> is the list
  \<^verbatim>\<open>frames\<close>, \<open>compile\<close> its concatenation (\<^verbatim>\<open>_concatFrames\<close>).
\<close>

definition spriteFrames :: "'v Game \<Rightarrow> byte list list" where
  "spriteFrames g = map (\<lambda>(sid, spr). spriteDef (spr_id spr) (spr_w spr) (spr_h spr) (spr_data spr)) (sprites g)"

definition flowStep ::
  "'v Game \<Rightarrow> byte list list \<times> string list \<times> 'v \<Rightarrow> string \<Rightarrow> byte list list \<times> string list \<times> 'v" where
  "flowStep g st sid =
     (case st of (frames, compiled, gameVars) \<Rightarrow>
        (case map_of (sections g) sid of
           None \<Rightarrow> (frames, compiled, gameVars)
         | Some s \<Rightarrow>
             (let (fs, gameVars') = compileSectionFrames gameVars s
              in (frames @ fs, set_add compiled sid, gameVars'))))"

definition restStep ::
  "string list \<Rightarrow> byte list list \<times> 'v \<Rightarrow> string \<times> 'v Section \<Rightarrow> byte list list \<times> 'v" where
  "restStep compiled st entry =
     (case st of (frames, gameVars) \<Rightarrow>
        (case entry of (sid, s) \<Rightarrow>
           (if sid \<in> set compiled then (frames, gameVars)
            else (let (fs, gameVars') = compileSectionFrames gameVars s
                  in (frames @ fs, gameVars')))))"

definition plainStep ::
  "'v Game \<Rightarrow> byte list list \<times> 'v \<Rightarrow> string \<Rightarrow> byte list list \<times> 'v" where
  "plainStep g st sid =
     (case st of (frames, gameVars) \<Rightarrow>
        (case map_of (sections g) sid of
           None \<Rightarrow> (frames, gameVars)
         | Some s \<Rightarrow>
             (let (fs, gameVars') = compileSectionFrames gameVars s
              in (frames @ fs, gameVars'))))"

definition compileFrames :: "'v Game \<Rightarrow> CompileError + byte list list" where
  "compileFrames g =
     (let hasBranching = hasBranchingCommands g
      in case (if hasBranching then validateLabels g else Inr ()) of
           Inl e \<Rightarrow> Inl e
         | Inr _ \<Rightarrow>
             (let frames0 = (if hasBranching then [programStart] else []);
                  frames1 = frames0 @ spriteFrames g;
                  frames2 =
                    (if hasBranching
                     then (let (fr, compiled, gameVars) = foldl (flowStep g) (frames1, [], vars g) (flow g)
                           in fst (foldl (restStep compiled) (fr, gameVars) (sections g)))
                     else fst (foldl (plainStep g) (frames1, vars g) (flow g)));
                  frames3 = frames2 @ [feed 16, stop]
              in Inr (if hasBranching then frames3 @ [programEnd] else frames3)))"

definition compile :: "'v Game \<Rightarrow> CompileError + byte list" where
  "compile g = (case compileFrames g of Inl e \<Rightarrow> Inl e | Inr frames \<Rightarrow> Inr (concat frames))"

subsection \<open>What label validation checks\<close>

text \<open>
  The label ids \<^verbatim>\<open>_validateLabels\<close> looks at: those of \<^verbatim>\<open>jump\<close>, \<^verbatim>\<open>jumpIfBtn\<close>,
  \<^verbatim>\<open>jumpIfVar\<close> and \<^verbatim>\<open>randomJump\<close> blocks. Validation passes exactly when all of them
  are defined, and a failing validation reports every one that is not, with its
  section.
\<close>

fun checkedRefs :: "block \<Rightarrow> int list" where
  "checkedRefs (Jump labelId) = [labelId]"
| "checkedRefs (JumpIfBtn buttonMask labelId) = [labelId]"
| "checkedRefs (JumpIfVar varId op v labelId) = [labelId]"
| "checkedRefs (RandomJump labelIds) = labelIds"
| "checkedRefs _ = []"

lemma blockErrors_labels:
  "blockErrors defined sid b = [] \<longleftrightarrow> set (checkedRefs b) \<subseteq> set defined"
  by (cases b) (auto simp add: filter_empty_conv)

lemma blockErrors_complete:
  "(\<exists>kind. UndefinedLabel sid' kind l \<in> set (blockErrors defined sid b))
     \<longleftrightarrow> sid' = sid \<and> l \<in> set (checkedRefs b) \<and> l \<notin> set defined"
  by (cases b) auto

lemma validateLabels_checked:
  "validateLabels g = Inr () \<longleftrightarrow>
     (\<forall>(sid, s)\<in>set (sections g). \<forall>b\<in>set (blocks s).
        set (checkedRefs b) \<subseteq> set (definedLabels g))"
  by (auto simp add: validateLabels_def Let_def blockErrors_labels split_beta)

lemma validateLabels_all_errors:
  assumes "validateLabels g = Inl (CompileError defined errors)"
  shows "(\<exists>kind. UndefinedLabel sid kind l \<in> set errors) \<longleftrightarrow>
           (\<exists>s b. (sid, s) \<in> set (sections g) \<and> b \<in> set (blocks s)
                  \<and> l \<in> set (checkedRefs b) \<and> l \<notin> set (definedLabels g))"
proof -
  have e: "errors = concat (map (\<lambda>(sid, s). concat (map (blockErrors (definedLabels g) sid) (blocks s)))
                     (sections g))"
    using assms by (auto simp add: validateLabels_def Let_def split: if_splits)
  have "(\<exists>kind. UndefinedLabel sid kind l \<in> set errors) \<longleftrightarrow>
          (\<exists>sid' s b. (sid', s) \<in> set (sections g) \<and> b \<in> set (blocks s)
              \<and> (\<exists>kind. UndefinedLabel sid kind l \<in> set (blockErrors (definedLabels g) sid' b)))"
    unfolding e by (simp add: split_beta) (metis fst_conv snd_conv prod.collapse)
  also have "\<dots> \<longleftrightarrow> (\<exists>s b. (sid, s) \<in> set (sections g) \<and> b \<in> set (blocks s)
                  \<and> l \<in> set (checkedRefs b) \<and> l \<notin> set (definedLabels g))"
    unfolding blockErrors_complete by auto
  finally show ?thesis .
qed

lemma set_addLabel: "set (foldl addLabel acc bs) = set acc \<union> {i. Label i \<in> set bs}"
proof (induction bs arbitrary: acc)
  case Nil
  then show ?case by simp
next
  case (Cons b bs)
  show ?case by (cases b) (auto simp add: Cons.IH set_add_def)
qed

lemma set_definedLabels_aux:
  "set (foldl (\<lambda>acc (sid, s). foldl addLabel acc (blocks s)) acc es)
     = set acc \<union> {i. \<exists>(sid, s)\<in>set es. Label i \<in> set (blocks s)}"
  by (induction es arbitrary: acc) (auto simp add: set_addLabel split_beta)

lemma set_definedLabels:
  "set (definedLabels g) = {i. \<exists>(sid, s)\<in>set (sections g). Label i \<in> set (blocks s)}"
  by (simp add: definedLabels_def set_definedLabels_aux)

subsection \<open>Examples\<close>

definition plainSection :: "unit Section" where
  "plainSection = \<lparr>feedMode = ''auto'', speed = 10000, blocks = [], onLine = None, onEnter = None,
            onExit = None, endCondition = None, maxLines = 2000\<rparr>"

definition faderGame :: "unit Game" where
  "faderGame = \<lparr>sections = [(''main'', plainSection\<lparr>blocks := [JumpIfFader 0 100 7]\<rparr>)],
                  flow = [''main''], vars = (), sprites = []\<rparr>"

definition jumpGame :: "unit Game" where
  "jumpGame = \<lparr>sections = [(''main'', plainSection\<lparr>blocks := [Jump 7]\<rparr>)],
                  flow = [''main''], vars = (), sprites = []\<rparr>"

text \<open>
  Claim C2 fails on the code for \<^verbatim>\<open>jumpIfFader\<close>: \<^verbatim>\<open>_validateLabels\<close> checks the label
  of \<^verbatim>\<open>jump\<close>, \<^verbatim>\<open>jumpIfBtn\<close>, \<^verbatim>\<open>jumpIfVar\<close> and \<^verbatim>\<open>randomJump\<close> blocks and has no
  case for \<^verbatim>\<open>jumpIfFader\<close>. A program whose only block is \<open>jumpIfFader(0, 100, 7)\<close>,
  with no label defined anywhere, passes validation and compiles to a stream that
  holds the jump to label 7; the same program with \<open>jump(7)\<close> is rejected.
\<close>

theorem jumpIfFader_label_not_validated:
  "hasBranchingCommands faderGame
   \<and> definedLabels faderGame = []
   \<and> validateLabels faderGame = Inr ()
   \<and> compileFrames faderGame
       = Inr [programStart, setSpeed 10000, jumpIfFader 0 100 7, feed 16, stop, programEnd]
   \<and> validateLabels jumpGame = Inl (CompileError [] [UndefinedLabel ''main'' ''jump'' 7])
   \<and> compileFrames jumpGame = Inl (CompileError [] [UndefinedLabel ''main'' ''jump'' 7])"
proof -
  have b: "hasBranchingCommands faderGame" "hasBranchingCommands jumpGame"
    by (simp_all add: hasBranchingCommands_def faderGame_def jumpGame_def plainSection_def)
  have d: "definedLabels faderGame = []" "definedLabels jumpGame = []"
    by (simp_all add: definedLabels_def faderGame_def jumpGame_def plainSection_def)
  have v: "validateLabels faderGame = Inr ()"
    unfolding validateLabels_def d by (simp add: faderGame_def plainSection_def)
  have w: "validateLabels jumpGame = Inl (CompileError [] [UndefinedLabel ''main'' ''jump'' 7])"
    unfolding validateLabels_def d by (simp add: jumpGame_def plainSection_def)
  have c: "compileFrames faderGame
       = Inr [programStart, setSpeed 10000, jumpIfFader 0 100 7, feed 16, stop, programEnd]"
    unfolding compileFrames_def Let_def
    by (simp only: b(1) v if_True sum.case)
       (simp add: faderGame_def spriteFrames_def flowStep_def restStep_def set_add_def
          compileSectionFrames_def sectionHeader_def feedModeLookup_def plainSection_def)
  have e: "compileFrames jumpGame = Inl (CompileError [] [UndefinedLabel ''main'' ''jump'' 7])"
    unfolding compileFrames_def Let_def using b(2) w by simp
  from b(1) d(1) v c w e show ?thesis by blast
qed

subsection \<open>The per-line speed of a dynamic section\<close>

lemma frame_cmd_rawLineRle:
  "frame_cmd (rawLineRle row) = RAW_LINE \<or> frame_cmd (rawLineRle row) = RAW_LINE_RLE"
  by (simp add: rawLineRle_cases frame_cmd_eq)

lemma run_loop_speed_irrelevant:
  assumes f': "\<forall>c. \<exists>sp. f' c = (f c)\<lparr>l_speed := sp\<rparr>"
      and e: "\<forall>e c sp. endC = Some e \<longrightarrow> e (c\<lparr>l_speed := sp\<rparr>) = e c"
  shows "fst (run_loop f' endC m i (c\<lparr>l_speed := x\<rparr>)) = fst (run_loop f endC m i c)"
proof (induction "m - i" arbitrary: i c x)
  case 0
  then have "\<not> i < m" by simp
  then show ?case by (simp add: run_loop.simps [of _ _ m i])
next
  case (Suc n)
  then have lt: "i < m" by simp
  define c1 where "c1 = c\<lparr>l_line := i, l_buf := replicate (length (l_buf c)) 0, l_speed := None\<rparr>"
  have c1': "(c\<lparr>l_speed := x\<rparr>)\<lparr>l_line := i,
               l_buf := replicate (length (l_buf (c\<lparr>l_speed := x\<rparr>))) 0, l_speed := None\<rparr> = c1"
    by (simp add: c1_def)
  obtain sp where sp: "f' c1 = (f c1)\<lparr>l_speed := sp\<rparr>" using f' by blast
  have ec: "(case endC of Some e \<Rightarrow> e (f' c1) | None \<Rightarrow> False)
              = (case endC of Some e \<Rightarrow> e (f c1) | None \<Rightarrow> False)"
    using e sp by (cases endC) simp_all
  have ih: "fst (run_loop f' endC m (i + 1) (f' c1)) = fst (run_loop f endC m (i + 1) (f c1))"
    unfolding sp using Suc.hyps(1) [where i = "i + 1" and c = "f c1" and x = sp] Suc.hyps(2) by simp
  have l: "run_loop f' endC m i (c\<lparr>l_speed := x\<rparr>) =
        (if l_done (f' c1) then ([l_buf (f' c1)], f' c1)
         else if (case endC of Some e \<Rightarrow> e (f' c1) | None \<Rightarrow> False) then ([l_buf (f' c1)], f' c1)
         else (let (rows, c3) = run_loop f' endC m (i + 1) (f' c1) in (l_buf (f' c1) # rows, c3)))"
    using lt by (subst run_loop.simps) (simp only: c1' Let_def if_True)
  have r: "run_loop f endC m i c =
        (if l_done (f c1) then ([l_buf (f c1)], f c1)
         else if (case endC of Some e \<Rightarrow> e (f c1) | None \<Rightarrow> False) then ([l_buf (f c1)], f c1)
         else (let (rows, c3) = run_loop f endC m (i + 1) (f c1) in (l_buf (f c1) # rows, c3)))"
    using lt by (subst run_loop.simps) (simp only: c1_def Let_def if_True)
  have d: "l_done (f' c1) = l_done (f c1)" and b: "l_buf (f' c1) = l_buf (f c1)"
    by (simp_all add: sp)
  show ?case
    unfolding l r d b ec using ih by (simp add: split_beta)
qed

lemma runDynamic_speed_irrelevant:
  assumes "\<forall>c. \<exists>sp. f' c = (f c)\<lparr>l_speed := sp\<rparr>"
      and "\<forall>e c sp. endCondition s = Some e \<longrightarrow> e (c\<lparr>l_speed := sp\<rparr>) = e c"
  shows "fst (runDynamic v (s\<lparr>onLine := ol\<rparr>) f') = fst (runDynamic v s f)"
proof -
  define c0 where "c0 = (case onEnter s of Some g \<Rightarrow> g (new_LineContext v (maxLines s))
                          | None \<Rightarrow> new_LineContext v (maxLines s))"
  have "fst (run_loop f' (endCondition s) (maxLines s) 0 (c0\<lparr>l_speed := l_speed c0\<rparr>))
          = fst (run_loop f (endCondition s) (maxLines s) 0 c0)"
    using assms by (rule run_loop_speed_irrelevant)
  then have "fst (run_loop f' (endCondition s) (maxLines s) 0 c0)
          = fst (run_loop f (endCondition s) (maxLines s) 0 c0)" by simp
  then show ?thesis
    by (simp add: runDynamic_def Let_def split_beta c0_def)
qed

text \<open>
  A dynamic section of one line whose callback calls \<^verbatim>\<open>setSpeed(5000)\<close>; the speed of
  the section is 10000.
\<close>

definition speedSection :: "unit Section" where
  "speedSection = plainSection\<lparr>onLine := Some (LineContext_setSpeed 5000), maxLines := 1\<rparr>"


text \<open>
  Claim C8, as stated, fails. The section above compiles to the \<^verbatim>\<open>SET_SPEED\<close> frame of
  the section (payload \<open>0x10 0x27\<close>, 10000) and one raster-line frame, exactly as the
  same section with a callback that does nothing; no frame carries the speed 5000
  (payload \<open>0x88 0x13\<close>).
\<close>

theorem lineContext_setSpeed_counterexample:
  "fst (compileSectionFrames () speedSection) = [setSpeed 10000, frame RAW_LINE_RLE [72, 0]]
   \<and> fst (compileSectionFrames () (speedSection\<lparr>onLine := Some (\<lambda>c. c)\<rparr>))
       = [setSpeed 10000, frame RAW_LINE_RLE [72, 0]]
   \<and> frame_payload (setSpeed 5000) = [0x88, 0x13]
   \<and> map frame_payload (fst (compileSectionFrames () speedSection)) = [[0x10, 0x27], [72, 0]]"
proof -
  have z: "rawLineRle (replicate 72 0) = frame RAW_LINE_RLE [72, 0]"
  proof -
    have "rleEncode (replicate 72 0) = Some [72, 0]" by code_simp
    then show ?thesis by (simp add: rawLineRle_def)
  qed
  have h: "sectionHeader (speedSection\<lparr>onLine := ol\<rparr>) = [setSpeed 10000]" for ol
    by (simp add: sectionHeader_def feedModeLookup_def speedSection_def plainSection_def)
  have l: "fst (run_loop g None (Suc 0) 0 c) = [l_buf (g (c\<lparr>l_line := 0, l_buf := replicate (length (l_buf c)) 0, l_speed := None\<rparr>))]"
    for g :: "unit LineContext \<Rightarrow> unit LineContext" and c
    by (subst run_loop.simps) (simp add: Let_def split_beta run_loop.simps [of _ _ "Suc 0" "Suc 0"])
  have r1: "fst (runDynamic () (speedSection\<lparr>onLine := ol\<rparr>) (LineContext_setSpeed 5000)) = [replicate 72 0]" for ol
    by (simp add: runDynamic_def speedSection_def plainSection_def Let_def split_beta l
          new_LineContext_def LineContext_setSpeed_def BPL_def)
  have r2: "fst (runDynamic () (speedSection\<lparr>onLine := ol\<rparr>) (\<lambda>c. c)) = [replicate 72 0]" for ol
    by (simp add: runDynamic_def speedSection_def plainSection_def Let_def split_beta l
          new_LineContext_def BPL_def)
  have s0: "speedSection = speedSection\<lparr>onLine := Some (LineContext_setSpeed 5000)\<rparr>"
    by (simp add: speedSection_def)
  have a: "fst (compileSectionFrames () speedSection) = [setSpeed 10000, frame RAW_LINE_RLE [72, 0]]"
    by (subst s0) (simp add: compileSectionFrames_def split_beta h r1 z)
  have b: "fst (compileSectionFrames () (speedSection\<lparr>onLine := Some (\<lambda>c. c)\<rparr>))
       = [setSpeed 10000, frame RAW_LINE_RLE [72, 0]]"
    by (simp add: compileSectionFrames_def split_beta h r2 z)
  have c: "frame_payload (setSpeed 5000) = [0x88, 0x13]"
    by (simp add: setSpeed_def frame_payload_eq u8_def)
  have d: "map frame_payload [setSpeed 10000, frame RAW_LINE_RLE [72, 0]] = [[0x10, 0x27], [72, 0]]"
    by (simp add: setSpeed_def frame_payload_eq u8_def)
  show ?thesis unfolding a b using c d by simp
qed

text \<open>
  Claim C8, amended. \<^verbatim>\<open>setSpeed(v)\<close> only stores \<open>v\<close> in the \<^verbatim>\<open>_speed\<close> field of the
  context, which \<^verbatim>\<open>_runDynamic\<close> clears before every line and which compilation never
  reads. The frames of a dynamic section are its mode and speed header followed by one
  \<^verbatim>\<open>RAW_LINE\<close> or \<^verbatim>\<open>RAW_LINE_RLE\<close> frame for each generated line, and they are the same
  for two callbacks that differ only in what they leave in \<^verbatim>\<open>_speed\<close> (given an end
  condition, if there is one, that does not read \<^verbatim>\<open>_speed\<close>).
\<close>

theorem dynamic_section_ignores_setSpeed:
  assumes "onLine s = Some f"
      and "\<forall>c. \<exists>sp. f' c = (f c)\<lparr>l_speed := sp\<rparr>"
      and "\<forall>e c sp. endCondition s = Some e \<longrightarrow> e (c\<lparr>l_speed := sp\<rparr>) = e c"
  shows "(\<forall>c pps. LineContext_setSpeed pps c = c\<lparr>l_speed := Some pps\<rparr>)
         \<and> fst (compileSectionFrames v (s\<lparr>onLine := Some f'\<rparr>)) = fst (compileSectionFrames v s)
         \<and> fst (compileSectionFrames v s) = sectionHeader s @ map rawLineRle (fst (runDynamic v s f))
         \<and> (\<forall>fr\<in>set (map rawLineRle (fst (runDynamic v s f))).
               frame_cmd fr = RAW_LINE \<or> frame_cmd fr = RAW_LINE_RLE)"
proof -
  have h: "sectionHeader (s\<lparr>onLine := Some f'\<rparr>) = sectionHeader s"
    by (simp add: sectionHeader_def Let_def)
  have a: "fst (compileSectionFrames v s) = sectionHeader s @ map rawLineRle (fst (runDynamic v s f))"
    using assms(1) by (simp add: compileSectionFrames_def split_beta)
  have b: "fst (compileSectionFrames v (s\<lparr>onLine := Some f'\<rparr>))
             = sectionHeader s @ map rawLineRle (fst (runDynamic v (s\<lparr>onLine := Some f'\<rparr>) f'))"
    by (simp add: compileSectionFrames_def split_beta h)
  have c: "fst (runDynamic v (s\<lparr>onLine := Some f'\<rparr>) f') = fst (runDynamic v s f)"
    using assms(2,3) by (rule runDynamic_speed_irrelevant)
  have d: "\<forall>fr\<in>set (map rawLineRle (fst (runDynamic v s f))).
               frame_cmd fr = RAW_LINE \<or> frame_cmd fr = RAW_LINE_RLE"
    using frame_cmd_rawLineRle by auto
  show ?thesis using a b c d by (simp add: LineContext_setSpeed_def)
qed

theorem dynamic_section_ignores_setSpeed_witness:
  "onLine (speedSection\<lparr>onLine := Some (\<lambda>c. c)\<rparr>) = Some (\<lambda>c. c)
   \<and> (\<forall>c :: unit LineContext. \<exists>sp. LineContext_setSpeed 5000 c = c\<lparr>l_speed := sp\<rparr>)
   \<and> endCondition (speedSection\<lparr>onLine := Some (\<lambda>c. c)\<rparr>) = None
   \<and> fst (compileSectionFrames () speedSection)
       = fst (compileSectionFrames () (speedSection\<lparr>onLine := Some (\<lambda>c. c)\<rparr>))"
proof -
  let ?s = "speedSection\<lparr>onLine := Some (\<lambda>c. c)\<rparr>"
  have h1: "onLine ?s = Some (\<lambda>c. c)" by simp
  have h2: "\<forall>c :: unit LineContext. \<exists>sp. LineContext_setSpeed 5000 c = ((\<lambda>c. c) c)\<lparr>l_speed := sp\<rparr>"
    by (auto simp add: LineContext_setSpeed_def)
  have n: "endCondition ?s = None" by (simp add: speedSection_def plainSection_def)
  then have h3: "\<forall>e c sp. endCondition ?s = Some e \<longrightarrow> e (c\<lparr>l_speed := sp\<rparr>) = e c" by simp
  have s: "?s\<lparr>onLine := Some (LineContext_setSpeed 5000)\<rparr> = speedSection"
    by (simp add: speedSection_def)
  note t = dynamic_section_ignores_setSpeed [OF h1 h2 h3, of "()"]
  from t have "fst (compileSectionFrames () (?s\<lparr>onLine := Some (LineContext_setSpeed 5000)\<rparr>))
                 = fst (compileSectionFrames () ?s)" by blast
  with h1 h2 n show ?thesis unfolding s by simp
qed

subsection \<open>The shape of the compiled stream\<close>

























lemma compileFrames_rejected:
  assumes "hasBranchingCommands g" and "validateLabels g = Inl e"
  shows "compileFrames g = Inl e"
  using assms by (simp add: compileFrames_def)



lemma jumpGame_branching: "hasBranchingCommands jumpGame"
  by (simp add: hasBranchingCommands_def jumpGame_def plainSection_def)

lemma jumpGame_invalid:
  "validateLabels jumpGame = Inl (CompileError [] [UndefinedLabel ''main'' ''jump'' 7])"
proof -
  have "definedLabels jumpGame = []"
    by (simp add: definedLabels_def jumpGame_def plainSection_def)
  then show ?thesis
    unfolding validateLabels_def by (simp add: jumpGame_def plainSection_def)
qed

text \<open>
  A program with a control-flow block that fails label validation is not compiled:
  for the program whose only block is \<open>jump(7)\<close>, with no label 7, \<^verbatim>\<open>compile\<close> raises the
  \<^verbatim>\<open>CompileError\<close> and yields no stream.
\<close>

lemma jumpGame_rejected:
  "compileFrames jumpGame = Inl (CompileError [] [UndefinedLabel ''main'' ''jump'' 7])
   \<and> compile jumpGame = Inl (CompileError [] [UndefinedLabel ''main'' ''jump'' 7])"
  using compileFrames_rejected [OF jumpGame_branching jumpGame_invalid]
  by (simp add: compile_def)







end
